theory Spec2Isabelle
  imports Main "HOL-Library.Word" "HOL-Library.Sublist"
begin

section \<open>Strings and JSON values\<close>

text \<open>
  A JavaScript string is a sequence of UTF-16 code units; \<open>charAt\<close>, \<open>length\<close>,
  \<open>endsWith\<close> and \<open>startsWith\<close> all count code units. \<open>js\<close> writes an ASCII
  literal as such a sequence.
\<close>

type_synonym code_unit = "16 word"
type_synonym js_string = "code_unit list"

definition js :: "string \<Rightarrow> js_string" where
  "js s = map (\<lambda>c. of_nat (of_char c)) s"

text \<open>
  The payloads given to \<open>ws.send\<close> are object literals. An object is kept as the list of
  its properties in the order the literal writes them, the property names being the
  identifiers of the source text.
\<close>

datatype json =
    JString js_string
  | JNumber int
  | JArray "json list"
  | JObject "(string \<times> json) list"

section \<open>The module graph\<close>

text \<open>
  \<open>ModuleNode\<close> objects live in a store from references to nodes; nodes name each other by
  reference. \<open>importers\<close> is a \<open>Set\<close> that the walk iterates, so it is the list of its
  members in iteration order; \<open>acceptedHmrDeps\<close> is only asked for membership.
  \<open>transformResult\<close> is \<open>null\<close> (\<open>None\<close>) or a cached result.
\<close>

type_synonym addr = nat

record ModuleNode =
  url :: js_string
  "file" :: js_string
  "type" :: js_string
  isSelfAccepting :: bool
  acceptedHmrDeps :: "addr set"
  importers :: "addr list"
  lastHMRTimestamp :: int
  transformResult :: "js_string option"

type_synonym heap = "addr \<rightharpoonup> ModuleNode"

text \<open>
  The boundaries set of the source holds a fresh object literal per \<open>add\<close>, so no two
  entries are ever the same member: it is the list of the pairs
  \<open>(boundary, acceptedVia)\<close> in insertion order.
\<close>

type_synonym boundaries = "(addr \<times> addr) list"

subsection \<open>invalidateChain\<close>

text \<open>
  The body of the \<open>forEach\<close> callback: two field writes on one node. A reference of the
  source always holds an object; at an address that holds none the store is left as it is.
\<close>

definition invalidateNode :: "int \<Rightarrow> heap \<Rightarrow> addr \<Rightarrow> heap" where
  "invalidateNode timestamp h a =
     (case h a of
        None \<Rightarrow> h
      | Some node \<Rightarrow> h(a \<mapsto> node\<lparr>lastHMRTimestamp := timestamp, transformResult := None\<rparr>))"

definition invalidateChain :: "addr list \<Rightarrow> int \<Rightarrow> heap \<Rightarrow> heap" where
  "invalidateChain chain timestamp h = foldl (invalidateNode timestamp) h chain"

subsection \<open>propagateUpdate\<close>

text \<open>
  The walk recurses along \<open>importers\<close>, and a store may hold an unbounded ascending chain
  of them, so the recursion depth is bounded by a fuel argument: \<open>None\<close> means that the
  walk did not return within the fuel (or was sent to an address that holds no node,
  which a reference of the source cannot be). The result is the returned \<open>hasDeadEnd\<close>
  together with the store and the boundaries set as the call leaves them.
  \<open>propagateImporters\<close> is the \<open>for\<close> loop over \<open>node.importers\<close>, run on the importers
  that are still to be visited.
\<close>

fun propagateUpdate ::
    "nat \<Rightarrow> heap \<Rightarrow> addr \<Rightarrow> int \<Rightarrow> boundaries \<Rightarrow> addr list \<Rightarrow> (bool \<times> heap \<times> boundaries) option"
  and propagateImporters ::
    "nat \<Rightarrow> heap \<Rightarrow> addr \<Rightarrow> int \<Rightarrow> boundaries \<Rightarrow> addr list \<Rightarrow> addr list
       \<Rightarrow> (bool \<times> heap \<times> boundaries) option"
where
  "propagateUpdate 0 h node timestamp bs currentChain = None"
| "propagateUpdate (Suc fuel) h node timestamp bs currentChain =
     (case h node of
        None \<Rightarrow> None
      | Some n \<Rightarrow>
          if isSelfAccepting n then
            Some (False, invalidateChain currentChain timestamp h, bs @ [(node, node)])
          else if importers n = [] then Some (True, h, bs)
          else propagateImporters fuel h node timestamp bs currentChain (importers n))"
| "propagateImporters fuel h node timestamp bs currentChain [] = Some (False, h, bs)"
| "propagateImporters fuel h node timestamp bs currentChain (importer # rest) =
     (let subChain = currentChain @ [importer] in
      case h importer of
        None \<Rightarrow> None
      | Some imp \<Rightarrow>
          if node \<in> acceptedHmrDeps imp then
            propagateImporters fuel (invalidateChain subChain timestamp h) node timestamp
              (bs @ [(importer, node)]) currentChain rest
          else if importer \<notin> set currentChain then
            (case propagateUpdate fuel h importer timestamp bs subChain of
               None \<Rightarrow> None
             | Some (True, h', bs') \<Rightarrow> Some (True, h', bs')
             | Some (False, h', bs') \<Rightarrow>
                 propagateImporters fuel h' node timestamp bs' currentChain rest)
          else propagateImporters fuel h node timestamp bs currentChain rest)"

subsection \<open>What a walk may change\<close>

text \<open>
  \<open>preserved n n'\<close>: the two nodes agree on every field other than \<open>lastHMRTimestamp\<close> and
  \<open>transformResult\<close>. \<open>frame h h'\<close>: the two stores hold nodes at the same addresses, and
  each node is preserved. \<open>closed h\<close>: every importer named by a node of the store is in
  the store, as it is for object references.
\<close>

definition preserved :: "ModuleNode \<Rightarrow> ModuleNode \<Rightarrow> bool" where
  "preserved n n' \<longleftrightarrow>
     url n' = url n \<and> file n' = file n \<and> type n' = type n \<and>
     isSelfAccepting n' = isSelfAccepting n \<and> acceptedHmrDeps n' = acceptedHmrDeps n \<and>
     importers n' = importers n"

definition frame :: "heap \<Rightarrow> heap \<Rightarrow> bool" where
  "frame h h' \<longleftrightarrow>
     dom h' = dom h \<and> (\<forall>a n n'. h a = Some n \<longrightarrow> h' a = Some n' \<longrightarrow> preserved n n')"

definition closed :: "heap \<Rightarrow> bool" where
  "closed h \<longleftrightarrow> (\<forall>a n. h a = Some n \<longrightarrow> set (importers n) \<subseteq> dom h)"



section \<open>The orchestrator\<close>

text \<open>
  A plugin's optional \<open>handleHotUpdate\<close> hook is an external collaborator. The hook is
  given the file, the live \<open>filteredMods\<close> array and the module graph to read. The array is
  handed over by reference, so the hook may change its content in place before its
  promise settles. Of an awaited call the orchestrator sees the outcome: the promise
  rejects, or it resolves; \<open>Resolved left result\<close> has \<open>left\<close>, the content of the array
  that was handed over as the hook leaves it (the content handed over, when the hook does
  not write to the array), and \<open>result\<close>, the array of nodes that the promise resolves to,
  or \<open>None\<close> when it resolves to nothing (\<open>void\<close>).
\<close>

datatype hook_result = Rejected | Resolved "addr list" "addr list option"

record Plugin =
  handleHotUpdate :: "(js_string \<Rightarrow> addr list \<Rightarrow> heap \<Rightarrow> hook_result) option"

record ResolvedConfig =
  configPath :: "js_string option"
  root :: js_string
  plugins :: "Plugin list"

text \<open>
  \<open>ws\<close> is the list of the payloads sent so far, oldest first; \<open>getModulesByFile\<close> answers
  with the members of the file's node set in iteration order, or with \<open>undefined\<close>.
\<close>

record ViteDevServer =
  ws :: "json list"
  config :: ResolvedConfig
  getModulesByFile :: "js_string \<Rightarrow> addr list option"
  moduleGraph :: heap

datatype hmr_error = HookRejected

definition send :: "json \<Rightarrow> ViteDevServer \<Rightarrow> ViteDevServer" where
  "send payload server = server\<lparr>ws := ws server @ [payload]\<rparr>"

text \<open>
  The loop over \<open>config.plugins\<close>: \<open>(await hook(file, filteredMods, server)) || filteredMods\<close>.
  Every array is truthy, the empty one too; \<open>undefined\<close> is the falsy result, and the
  fallback then reads the array that the hook was handed, as the hook has left it.
\<close>

fun hotUpdateHooks :: "Plugin list \<Rightarrow> js_string \<Rightarrow> addr list \<Rightarrow> heap \<Rightarrow> hmr_error + addr list" where
  "hotUpdateHooks [] changedFile filteredMods h = Inr filteredMods"
| "hotUpdateHooks (plugin # rest) changedFile filteredMods h =
     (case handleHotUpdate plugin of
        None \<Rightarrow> hotUpdateHooks rest changedFile filteredMods h
      | Some hook \<Rightarrow>
          (case hook changedFile filteredMods h of
             Rejected \<Rightarrow> Inl HookRejected
           | Resolved left None \<Rightarrow> hotUpdateHooks rest changedFile left h
           | Resolved left (Some ms) \<Rightarrow> hotUpdateHooks rest changedFile ms h))"

text \<open>The object literal that the \<open>map\<close> callback builds from one boundaries entry.\<close>

definition updateRecord :: "heap \<Rightarrow> int \<Rightarrow> addr \<times> addr \<Rightarrow> json option" where
  "updateRecord h timestamp entry =
     (case h (fst entry) of
        None \<Rightarrow> None
      | Some boundary \<Rightarrow>
          (case h (snd entry) of
             None \<Rightarrow> None
           | Some acceptedVia \<Rightarrow>
               Some (JObject
                 [(''type'', JString (type boundary @ js ''-update'')),
                  (''timestamp'', JNumber timestamp),
                  (''path'', JString (url boundary)),
                  (''accpetedPath'', JString (url acceptedVia))])))"

text \<open>
  The loop over \<open>filteredMods\<close>. It ends in a full reload at the first walk that reports
  a dead end, or with the \<open>updates\<close> array once every module has been walked.
\<close>

datatype batch = FullReload | Updates "json list"

fun propagateAll :: "nat \<Rightarrow> heap \<Rightarrow> addr list \<Rightarrow> int \<Rightarrow> json list \<Rightarrow> (batch \<times> heap) option" where
  "propagateAll fuel h [] timestamp updates = Some (Updates updates, h)"
| "propagateAll fuel h (m # rest) timestamp updates =
     (case propagateUpdate fuel h m timestamp [] [m] of
        None \<Rightarrow> None
      | Some (hasDeadEnd, h', boundaries) \<Rightarrow>
          if hasDeadEnd then Some (FullReload, h')
          else
            (case those (map (updateRecord h' timestamp) boundaries) of
               None \<Rightarrow> None
             | Some records \<Rightarrow> propagateAll fuel h' rest timestamp (updates @ records)))"

text \<open>
  \<open>CLIENT_DIR\<close> and \<open>slash (path.relative root file)\<close> come from outside this file and are
  parameters; \<open>now\<close> is the value of the one \<open>Date.now()\<close> call, and \<open>fuel\<close> bounds each
  walk. The promise rejects (\<open>Inl\<close>) when a hook does, and resolves otherwise; \<open>None\<close>
  only when a walk gives \<open>None\<close>. The debug log is not part of the model.
\<close>

definition handleHMRUpdate ::
    "js_string \<Rightarrow> (js_string \<Rightarrow> js_string \<Rightarrow> js_string) \<Rightarrow> nat \<Rightarrow> int \<Rightarrow> js_string \<Rightarrow> ViteDevServer
       \<Rightarrow> (hmr_error + ViteDevServer) option" where
  "handleHMRUpdate CLIENT_DIR slashRelative fuel now changedFile server =
     (if Some changedFile = configPath (config server) then Some (Inr server)
      else if suffix (js ''.env'') changedFile then Some (Inr server)
      else if suffix (js ''.html'') changedFile \<or> prefix CLIENT_DIR changedFile then
        Some (Inr (send (JObject
          [(''type'', JString (js ''full-reload'')),
           (''path'', JString (js ''/'' @ slashRelative (root (config server)) changedFile))]) server))
      else
        (case getModulesByFile server changedFile of
           None \<Rightarrow> Some (Inr server)
         | Some mods \<Rightarrow>
             (case hotUpdateHooks (plugins (config server)) changedFile mods (moduleGraph server) of
                Inl e \<Rightarrow> Some (Inl e)
              | Inr filteredMods \<Rightarrow>
                  (case propagateAll fuel (moduleGraph server) filteredMods now [] of
                     None \<Rightarrow> None
                   | Some (FullReload, h') \<Rightarrow>
                       Some (Inr (send (JObject [(''type'', JString (js ''full-reload''))])
                                    (server\<lparr>moduleGraph := h'\<rparr>)))
                   | Some (Updates updates, h') \<Rightarrow>
                       Some (Inr (send (JObject
                         [(''type'', JString (js ''update'')), (''updates'', JArray updates)])
                                    (server\<lparr>moduleGraph := h'\<rparr>)))))))"

section \<open>The prune handler\<close>

text \<open>The body of the \<open>forEach\<close> callback: one field write on one node.\<close>

definition stampNode :: "int \<Rightarrow> heap \<Rightarrow> addr \<Rightarrow> heap" where
  "stampNode t h a =
     (case h a of None \<Rightarrow> h | Some m \<Rightarrow> h(a \<mapsto> m\<lparr>lastHMRTimestamp := t\<rparr>))"

text \<open>
  \<open>t\<close> is the value of \<open>Date.now()\<close>; \<open>mods\<close> is the set in iteration order. \<open>None\<close> only
  when \<open>mods\<close> names an address that holds no node.
\<close>

definition handlePrunedModules :: "addr list \<Rightarrow> int \<Rightarrow> ViteDevServer \<Rightarrow> ViteDevServer option" where
  "handlePrunedModules mods t server =
     (let h' = foldl (stampNode t) (moduleGraph server) mods in
      case those (map (\<lambda>m. map_option url (h' m)) mods) of
        None \<Rightarrow> None
      | Some urls \<Rightarrow>
          Some (send (JObject
            [(''type'', JString (js ''prune'')), (''paths'', JArray (map JString urls))])
                  (server\<lparr>moduleGraph := h'\<rparr>)))"

section \<open>The lexer of accepted dependencies\<close>

datatype LexerState =
  inCall | inSingleQuoteString | inDoubleQuoteString | inTemplateString | inArray

text \<open>The error that \<open>error (pos)\<close> throws, with its \<open>pos\<close>.\<close>

datatype lex_error = AcceptError nat

text \<open>
  The regular expression \<open>\s\<close> on one code unit: the white space and line terminator
  code points of ECMAScript.
\<close>

definition isSpace :: "code_unit \<Rightarrow> bool" where
  "isSpace c \<longleftrightarrow>
     c \<in> {0x9, 0xA, 0xB, 0xC, 0xD, 0x20, 0xA0, 0x1680, 0x2028, 0x2029, 0x202F, 0x205F,
          0x3000, 0xFEFF} \<or> (0x2000 \<le> c \<and> c \<le> 0x200A)"

text \<open>\<open>urls.add\<close> on a \<open>Set\<close> kept as the list of its members in insertion order.\<close>

definition add :: "js_string \<Rightarrow> js_string list \<Rightarrow> js_string list" where
  "add dep urls = (if dep \<in> set urls then urls else urls @ [dep])"

text \<open>The variables of the loop, and the \<open>urls\<close> set that the caller handed in.\<close>

record lexer =
  state :: LexerState
  prevState :: LexerState
  currentDep :: js_string
  urls :: "js_string list"

text \<open>
  One iteration of the \<open>for\<close> loop, at index \<open>i < code.length\<close>: the loop goes on to
  \<open>i + 1\<close> (\<open>break\<close> out of the \<open>switch\<close>, or \<open>continue\<close>), or the call returns or
  throws, leaving the \<open>urls\<close> set as given. \<open>code.charAt (i + 1)\<close> past the end is the
  empty string, which is not a brace. The \<open>default\<close> branch of the \<open>switch\<close> has no
  counterpart: the five states are all there are. The code units compared with are
  \<open>0x27\<close> (single quote), \<open>0x22\<close> (double quote), \<open>0x60\<close> (backtick), \<open>0x5B\<close> and
  \<open>0x5D\<close> (the square brackets), \<open>0x2C\<close> (comma), \<open>0x24\<close> (dollar sign) and \<open>0x7B\<close>
  (opening brace).
\<close>

datatype step = Continue lexer | Done "lex_error + bool" "js_string list"

definition lexStep :: "js_string \<Rightarrow> nat \<Rightarrow> lexer \<Rightarrow> step" where
  "lexStep code i lx =
     (let char = code ! i in
      if state lx = inCall \<or> state lx = inArray then
        (if char = 0x27 then Continue (lx\<lparr>prevState := state lx, state := inSingleQuoteString\<rparr>)
         else if char = 0x22 then
           Continue (lx\<lparr>prevState := state lx, state := inDoubleQuoteString\<rparr>)
         else if char = 0x60 then
           Continue (lx\<lparr>prevState := state lx, state := inTemplateString\<rparr>)
         else if isSpace char then Continue lx
         else if state lx = inCall then
           (if char = 0x5B then Continue (lx\<lparr>state := inArray\<rparr>)
            else Done (Inr True) (urls lx))
         else
           (if char = 0x5D then Done (Inr False) (urls lx)
            else if char = 0x2C then Continue lx
            else Done (Inl (AcceptError i)) (urls lx)))
      else if state lx = inSingleQuoteString then
        (if char = 0x27 then
           Continue (lx\<lparr>urls := add (currentDep lx) (urls lx), currentDep := [],
                        state := prevState lx\<rparr>)
         else Continue (lx\<lparr>currentDep := currentDep lx @ [char]\<rparr>))
      else if state lx = inDoubleQuoteString then
        (if char = 0x22 then
           Continue (lx\<lparr>urls := add (currentDep lx) (urls lx), state := prevState lx\<rparr>)
         else Continue (lx\<lparr>currentDep := currentDep lx @ [char]\<rparr>))
      else
        (if char = 0x60 then
           Continue (lx\<lparr>urls := add (currentDep lx) (urls lx), currentDep := [],
                        state := prevState lx\<rparr>)
         else if char = 0x24 \<and> i + 1 < length code \<and> code ! (i + 1) = 0x7B then
           Done (Inl (AcceptError i)) (urls lx)
         else Continue (lx\<lparr>currentDep := currentDep lx @ [char]\<rparr>)))"

text \<open>
  The loop from index \<open>i\<close> on. The result is what the call returns or throws, and the
  \<open>urls\<close> set as the call leaves it; running off the end of \<open>code\<close> returns \<open>false\<close>.
\<close>

function lexLoop :: "js_string \<Rightarrow> nat \<Rightarrow> lexer \<Rightarrow> (lex_error + bool) \<times> js_string list" where
  "lexLoop code i lx =
     (if i < length code then
        (case lexStep code i lx of
           Continue lx' \<Rightarrow> lexLoop code (i + 1) lx'
         | Done result urls' \<Rightarrow> (result, urls'))
      else (Inr False, urls lx))"
  by pat_completeness auto
termination
  by (relation "measure (\<lambda>(code, i, lx). length code - i)") auto

definition lexAcceptedHmrDeps ::
    "js_string \<Rightarrow> nat \<Rightarrow> js_string list \<Rightarrow> (lex_error + bool) \<times> js_string list" where
  "lexAcceptedHmrDeps code start urls0 =
     lexLoop code start \<lparr>state = inCall, prevState = inCall, currentDep = [], urls = urls0\<rparr>"

text \<open>
  \<open>lexAt code start urls0 k\<close>: the loop's variables on entry to the iteration at index
  \<open>start + k\<close>, when the call gets that far.
\<close>

primrec lexAt :: "js_string \<Rightarrow> nat \<Rightarrow> js_string list \<Rightarrow> nat \<Rightarrow> lexer option" where
  "lexAt code start urls0 0 =
     Some \<lparr>state = inCall, prevState = inCall, currentDep = [], urls = urls0\<rparr>"
| "lexAt code start urls0 (Suc k) =
     (case lexAt code start urls0 k of
        None \<Rightarrow> None
      | Some lx \<Rightarrow>
          if start + k < length code then
            (case lexStep code (start + k) lx of
               Continue lx' \<Rightarrow> Some lx'
             | Done result urls' \<Rightarrow> None)
          else None)"

section \<open>Example inputs\<close>

text \<open>A node with a fresh timestamp and a cached transform result.\<close>

definition exampleNode :: "string \<Rightarrow> bool \<Rightarrow> addr set \<Rightarrow> addr list \<Rightarrow> ModuleNode" where
  "exampleNode name selfAccepting accepted imps =
     \<lparr>url = js name, file = js ''/srv'' @ js name, type = js ''js'',
      isSelfAccepting = selfAccepting, acceptedHmrDeps = accepted, importers = imps,
      lastHMRTimestamp = 0, transformResult = Some (js ''cached'')\<rparr>"

text \<open>
  A imports B, B imports C, C imports A: the importers of A are C, those of B are A, those
  of C are B.
\<close>

definition cycleGraph :: heap where
  "cycleGraph =
     [0 \<mapsto> exampleNode ''/A.js'' False {} [2],
      1 \<mapsto> exampleNode ''/B.js'' False {} [0],
      2 \<mapsto> exampleNode ''/C.js'' False {} [1]]"

text \<open>
  \<open>/dep.js\<close> has two importers: \<open>/accepting.js\<close>, which accepts it, and \<open>/plain.js\<close>, which
  does not and which nothing imports.
\<close>

definition deadEndGraph :: heap where
  "deadEndGraph =
     [0 \<mapsto> exampleNode ''/dep.js'' False {} [1, 2],
      1 \<mapsto> exampleNode ''/accepting.js'' False {0} [],
      2 \<mapsto> exampleNode ''/plain.js'' False {} []]"

text \<open>\<open>/self.js\<close> accepts itself and is imported by \<open>/main.js\<close>, which nothing imports.\<close>

definition selfAcceptingGraph :: heap where
  "selfAcceptingGraph =
     [0 \<mapsto> exampleNode ''/self.js'' True {} [1],
      1 \<mapsto> exampleNode ''/main.js'' False {} []]"

text \<open>A server that has sent nothing yet and knows the file \<open>/srv/self.js\<close> as \<open>mods\<close>.\<close>

definition exampleServer :: "heap \<Rightarrow> addr list \<Rightarrow> Plugin list \<Rightarrow> ViteDevServer" where
  "exampleServer h mods ps =
     \<lparr>ws = [],
      config = \<lparr>configPath = Some (js ''/srv/vite.config.js''), root = js ''/srv'', plugins = ps\<rparr>,
      getModulesByFile = (\<lambda>f. if f = js ''/srv/self.js'' then Some mods else None),
      moduleGraph = h\<rparr>"

definition clientDir :: js_string where
  "clientDir = js ''/srv/node_modules/vite/dist/client''"

definition exampleRelative :: "js_string \<Rightarrow> js_string \<Rightarrow> js_string" where
  "exampleRelative r f = drop (Suc (length r)) f"


definition voidPlugin :: Plugin where
  "voidPlugin = \<lparr>handleHotUpdate = Some (\<lambda>f mods h. Resolved mods None)\<rparr>"

definition clearingPlugin :: Plugin where
  "clearingPlugin = \<lparr>handleHotUpdate = Some (\<lambda>f mods h. Resolved [] None)\<rparr>"

text \<open>The payloads that a resolved call has sent.\<close>

definition sent :: "(hmr_error + ViteDevServer) option \<Rightarrow> json list option" where
  "sent r = (case r of Some (Inr server) \<Rightarrow> Some (ws server) | _ \<Rightarrow> None)"

text \<open>Some \<open>accept\<close> calls; the lexer starts behind the opening parenthesis, at index 1.\<close>

definition interpolated :: js_string where
  \<open>interpolated = js ''([`./a${x}`])''\<close>

definition doubleQuoted :: js_string where
  \<open>doubleQuoted = js ''(["./a.js","./b.js"])''\<close>

definition singleQuoted :: js_string where
  \<open>singleQuoted = js ''(['./a.js','./b.js'])''\<close>

definition twoArguments :: js_string where
  \<open>twoArguments = js ''("./a.js","./b.js")''\<close>

definition bareArray :: js_string where
  \<open>bareArray = js ''([./a.js])''\<close>

section \<open>Properties of the walk\<close>

lemma frame_refl: "frame h h"
  by (simp add: frame_def preserved_def)

lemma frame_trans:
  assumes "frame h1 h2" and "frame h2 h3"
  shows "frame h1 h3"
proof -
  have d: "dom h3 = dom h1" using assms by (simp add: frame_def)
  have "preserved n n''" if a: "h1 a = Some n" and c: "h3 a = Some n''" for a n n''
  proof -
    from a assms(1) have "a \<in> dom h2" by (auto simp: frame_def)
    then obtain n' where b: "h2 a = Some n'" by auto
    from assms(1) a b have "preserved n n'" by (simp add: frame_def)
    moreover from assms(2) b c have "preserved n' n''" by (simp add: frame_def)
    ultimately show ?thesis by (simp add: preserved_def)
  qed
  with d show ?thesis by (simp add: frame_def)
qed

lemma invalidateNode_apply:
  "invalidateNode ts h x a =
     (if a = x then map_option (\<lambda>m. m\<lparr>lastHMRTimestamp := ts, transformResult := None\<rparr>) (h a)
      else h a)"
  by (simp add: invalidateNode_def split: option.splits)

lemma invalidateChain_apply:
  "invalidateChain chain ts h a =
     (if a \<in> set chain
      then map_option (\<lambda>m. m\<lparr>lastHMRTimestamp := ts, transformResult := None\<rparr>) (h a)
      else h a)"
  unfolding invalidateChain_def
proof (induction chain arbitrary: h)
  case Nil
  show ?case by simp
next
  case (Cons x xs)
  let ?stamp = "\<lambda>m. m\<lparr>lastHMRTimestamp := ts, transformResult := None\<rparr>"
  let ?h = "invalidateNode ts h x"
  have "foldl (invalidateNode ts) h (x # xs) a = foldl (invalidateNode ts) ?h xs a"
    by simp
  also have "\<dots> = (if a \<in> set xs then map_option ?stamp (?h a) else ?h a)"
    by (rule Cons.IH)
  also have "\<dots> = (if a \<in> set (x # xs) then map_option ?stamp (h a) else h a)"
    by (cases "h x") (auto simp: invalidateNode_apply)
  finally show ?case .
qed

lemma frame_invalidateChain: "frame h (invalidateChain chain ts h)"
proof -
  have "dom (invalidateChain chain ts h) = dom h"
    by (auto simp: invalidateChain_apply dom_def)
  then show ?thesis
    by (auto simp: frame_def preserved_def invalidateChain_apply split: if_splits)
qed

lemma frame_closed:
  assumes "frame h h'" and "closed h"
  shows "closed h'"
  unfolding closed_def
proof (intro allI impI)
  fix a n'
  assume a: "h' a = Some n'"
  from assms(1) have d: "dom h' = dom h" by (simp add: frame_def)
  from a have "a \<in> dom h'" by (rule domI)
  with d have "a \<in> dom h" by simp
  then obtain n where n: "h a = Some n" by (auto simp: dom_def)
  from assms(1) n a have "preserved n n'" unfolding frame_def by blast
  then have "importers n' = importers n" by (simp add: preserved_def)
  moreover from n assms(2) have "set (importers n) \<subseteq> dom h" unfolding closed_def by blast
  ultimately show "set (importers n') \<subseteq> dom h'" using d by simp
qed

lemma walk_rel:
  assumes R_refl: "\<And>h. R h h"
    and R_trans: "\<And>h1 h2 h3. R h1 h2 \<Longrightarrow> R h2 h3 \<Longrightarrow> R h1 h3"
    and R_inv: "\<And>c h. R h (invalidateChain c ts h)"
  shows "propagateUpdate fuel h node t bs chain = Some (d, h', bs') \<Longrightarrow> t = ts \<Longrightarrow> R h h'"
    and "propagateImporters fuel h node t bs chain imps = Some (d, h', bs') \<Longrightarrow> t = ts \<Longrightarrow> R h h'"
proof (induction fuel h node t bs chain and fuel h node t bs chain imps
       arbitrary: d h' bs' and d h' bs' rule: propagateUpdate_propagateImporters.induct)
  case (1 h node timestamp bs currentChain)
  then show ?case by simp
next
  case (2 fuel h node timestamp bs currentChain)
  from "2.prems"(1) obtain n where n: "h node = Some n"
    by (auto split: option.splits)
  show ?case
  proof (cases "isSelfAccepting n")
    case True
    with n "2.prems"(1) have "h' = invalidateChain currentChain timestamp h" by simp
    with "2.prems"(2) show ?thesis by (simp add: R_inv)
  next
    case False
    show ?thesis
    proof (cases "importers n = []")
      case True
      with n False "2.prems"(1) have "h' = h" by simp
      then show ?thesis by (simp add: R_refl)
    next
      case nonempty: False
      with n False "2.prems"(1)
      have "propagateImporters fuel h node timestamp bs currentChain (importers n)
              = Some (d, h', bs')" by simp
      then show ?thesis by (rule "2.IH"[OF n False nonempty _ "2.prems"(2)])
    qed
  qed
next
  case (3 fuel h node timestamp bs currentChain)
  then show ?case by (simp add: R_refl)
next
  case (4 fuel h node timestamp bs currentChain importer rest)
  let ?sub = "currentChain @ [importer]"
  from "4.prems"(1) obtain imp where imp: "h importer = Some imp"
    by (auto simp: Let_def split: option.splits)
  show ?case
  proof (cases "node \<in> acceptedHmrDeps imp")
    case True
    with imp "4.prems"(1)
    have "propagateImporters fuel (invalidateChain ?sub timestamp h)
            node timestamp (bs @ [(importer, node)]) currentChain rest = Some (d, h', bs')"
      by (simp add: Let_def)
    then have "R (invalidateChain ?sub timestamp h) h'"
      by (rule "4.IH"(1)[OF refl imp True _ "4.prems"(2)])
    moreover have "R h (invalidateChain ?sub timestamp h)"
      using "4.prems"(2) by (simp add: R_inv)
    ultimately show ?thesis by (rule R_trans[rotated])
  next
    case notAccepted: False
    show ?thesis
    proof (cases "importer \<in> set currentChain")
      case True
      with imp notAccepted "4.prems"(1)
      have "propagateImporters fuel h node timestamp bs currentChain rest = Some (d, h', bs')"
        by (simp add: Let_def)
      then show ?thesis
        using "4.IH"(4)[OF refl imp notAccepted _ _ "4.prems"(2)] True by simp
    next
      case fresh: False
      from imp notAccepted fresh "4.prems"(1)
      obtain d1 h1 bs1 where
        rec: "propagateUpdate fuel h importer timestamp bs ?sub = Some (d1, h1, bs1)"
        by (auto simp: Let_def split: option.splits)
      have R1: "R h h1"
        by (rule "4.IH"(2)[OF refl imp notAccepted fresh rec "4.prems"(2)])
      show ?thesis
      proof (cases d1)
        case True
        with imp notAccepted fresh rec "4.prems"(1) have "h' = h1"
          by (simp add: Let_def)
        with R1 show ?thesis by simp
      next
        case False
        with imp notAccepted fresh rec "4.prems"(1)
        have "propagateImporters fuel h1 node timestamp bs1 currentChain rest
                = Some (d, h', bs')"
          by (simp add: Let_def)
        then have "R h1 h'"
          using "4.IH"(3)[OF refl imp notAccepted fresh rec refl _ refl _ "4.prems"(2)] False
          by simp
        with R1 show ?thesis by (rule R_trans)
      qed
    qed
  qed
qed


lemma walk_frame:
  "propagateUpdate fuel h node ts bs chain = Some (d, h', bs') \<Longrightarrow> frame h h'"
  "propagateImporters fuel h node ts bs chain imps = Some (d, h', bs') \<Longrightarrow> frame h h'"
proof -
  have r: "\<And>h. frame h h" by (rule frame_refl)
  have t: "\<And>h1 h2 h3. frame h1 h2 \<Longrightarrow> frame h2 h3 \<Longrightarrow> frame h1 h3" by (rule frame_trans)
  have i: "\<And>c h. frame h (invalidateChain c ts h)" by (rule frame_invalidateChain)
  show "propagateUpdate fuel h node ts bs chain = Some (d, h', bs') \<Longrightarrow> frame h h'"
    by (rule walk_rel(1)[of frame ts, OF r t i _ refl])
  show "propagateImporters fuel h node ts bs chain imps = Some (d, h', bs') \<Longrightarrow> frame h h'"
    by (rule walk_rel(2)[of frame ts, OF r t i _ refl])
qed

lemma walk_returns:
  "finite (dom h) \<Longrightarrow> closed h \<Longrightarrow> node \<in> dom h \<Longrightarrow> card (dom h - set chain) < fuel
     \<Longrightarrow> propagateUpdate fuel h node t bs chain \<noteq> None"
  "finite (dom h) \<Longrightarrow> closed h \<Longrightarrow> set imps \<subseteq> dom h \<Longrightarrow> card (dom h - set chain) \<le> fuel
     \<Longrightarrow> propagateImporters fuel h node t bs chain imps \<noteq> None"
proof (induction fuel h node t bs chain and fuel h node t bs chain imps
       rule: propagateUpdate_propagateImporters.induct)
  case (1 h node timestamp bs currentChain)
  then show ?case by simp
next
  case (2 fuel h node timestamp bs currentChain)
  from "2.prems"(3) obtain n where n: "h node = Some n" by auto
  show ?case
  proof (cases "isSelfAccepting n \<or> importers n = []")
    case True
    with n show ?thesis by auto
  next
    case False
    then have sa: "\<not> isSelfAccepting n" and ne: "importers n \<noteq> []" by simp_all
    from n "2.prems"(2) have "set (importers n) \<subseteq> dom h" by (simp add: closed_def)
    moreover from "2.prems"(4) have "card (dom h - set currentChain) \<le> fuel" by simp
    ultimately have
      "propagateImporters fuel h node timestamp bs currentChain (importers n) \<noteq> None"
      using "2.IH"[OF n sa ne] "2.prems"(1,2) by simp
    with n sa ne show ?thesis by simp
  qed
next
  case (3 fuel h node timestamp bs currentChain)
  show ?case by simp
next
  case (4 fuel h node timestamp bs currentChain importer rest)
  let ?sub = "currentChain @ [importer]"
  from "4.prems"(3) obtain imp where imp: "h importer = Some imp" by auto
  from "4.prems"(3) have rest: "set rest \<subseteq> dom h" by simp
  show ?case
  proof (cases "node \<in> acceptedHmrDeps imp")
    case True
    let ?h = "invalidateChain ?sub timestamp h"
    have fr: "frame h ?h" by (rule frame_invalidateChain)
    then have d: "dom ?h = dom h" by (simp add: frame_def)
    have "propagateImporters fuel ?h node timestamp (bs @ [(importer, node)])
            currentChain rest \<noteq> None"
      using "4.IH"(1)[OF refl imp True] "4.prems"(1,4) frame_closed[OF fr "4.prems"(2)] rest d
      by simp
    with imp True show ?thesis by (simp add: Let_def)
  next
    case notAccepted: False
    show ?thesis
    proof (cases "importer \<in> set currentChain")
      case True
      have "propagateImporters fuel h node timestamp bs currentChain rest \<noteq> None"
        using "4.IH"(4)[OF refl imp notAccepted] True "4.prems"(1,2,4) rest by simp
      with imp notAccepted True show ?thesis by (simp add: Let_def)
    next
      case fresh: False
      from "4.prems"(1) have "finite (dom h - set currentChain)" by simp
      moreover from imp fresh have "importer \<in> dom h - set currentChain" by auto
      ultimately have
        "card ((dom h - set currentChain) - {importer}) < card (dom h - set currentChain)"
        by (rule card_Diff1_less)
      moreover have "dom h - set ?sub = (dom h - set currentChain) - {importer}" by auto
      ultimately have "card (dom h - set ?sub) < card (dom h - set currentChain)"
        by simp
      with "4.prems"(4) have "card (dom h - set ?sub) < fuel" by simp
      moreover from imp have "importer \<in> dom h" by auto
      ultimately have "propagateUpdate fuel h importer timestamp bs ?sub \<noteq> None"
        using "4.IH"(2)[OF refl imp notAccepted fresh] "4.prems"(1,2) by simp
      then obtain d1 h1 bs1 where
        rec: "propagateUpdate fuel h importer timestamp bs ?sub = Some (d1, h1, bs1)"
        by auto
      show ?thesis
      proof (cases d1)
        case True
        with imp notAccepted fresh rec show ?thesis by (simp add: Let_def)
      next
        case False
        have fr: "frame h h1" by (rule walk_frame(1)[OF rec])
        then have d: "dom h1 = dom h" by (simp add: frame_def)
        have "propagateImporters fuel h1 node timestamp bs1 currentChain rest \<noteq> None"
          using "4.IH"(3)[OF refl imp notAccepted fresh rec refl _ refl] False
            "4.prems"(1,4) frame_closed[OF fr "4.prems"(2)] rest d
          by simp
        with imp notAccepted fresh rec False show ?thesis by (simp add: Let_def)
      qed
    qed
  qed
qed

text \<open>The fuel is a bound only: a walk that returns does so with any larger fuel.\<close>

lemma walk_more_fuel:
  "propagateUpdate fuel h node t bs chain = Some r \<Longrightarrow> fuel \<le> fuel'
     \<Longrightarrow> propagateUpdate fuel' h node t bs chain = Some r"
  "propagateImporters fuel h node t bs chain imps = Some r \<Longrightarrow> fuel \<le> fuel'
     \<Longrightarrow> propagateImporters fuel' h node t bs chain imps = Some r"
proof (induction fuel h node t bs chain and fuel h node t bs chain imps
       arbitrary: r fuel' and r fuel' rule: propagateUpdate_propagateImporters.induct)
  case (1 h node timestamp bs currentChain)
  then show ?case by simp
next
  case (2 fuel h node timestamp bs currentChain)
  from "2.prems"(2) obtain k where k: "fuel' = Suc k" and le: "fuel \<le> k"
    by (cases fuel') simp_all
  from "2.prems"(1) obtain n where n: "h node = Some n"
    by (auto split: option.splits)
  show ?case
  proof (cases "isSelfAccepting n \<or> importers n = []")
    case True
    with n "2.prems"(1) show ?thesis unfolding k by auto
  next
    case False
    then have sa: "\<not> isSelfAccepting n" and ne: "importers n \<noteq> []" by simp_all
    with n "2.prems"(1)
    have "propagateImporters fuel h node timestamp bs currentChain (importers n) = Some r"
      by simp
    then have "propagateImporters k h node timestamp bs currentChain (importers n) = Some r"
      using le by (rule "2.IH"[OF n sa ne])
    with n sa ne show ?thesis unfolding k by simp
  qed
next
  case (3 fuel h node timestamp bs currentChain)
  then show ?case by simp
next
  case (4 fuel h node timestamp bs currentChain importer rest)
  let ?sub = "currentChain @ [importer]"
  from "4.prems"(1) obtain imp where imp: "h importer = Some imp"
    by (auto simp: Let_def split: option.splits)
  show ?case
  proof (cases "node \<in> acceptedHmrDeps imp")
    case True
    with imp "4.prems"(1)
    have "propagateImporters fuel (invalidateChain ?sub timestamp h) node timestamp
            (bs @ [(importer, node)]) currentChain rest = Some r"
      by (simp add: Let_def)
    then have "propagateImporters fuel' (invalidateChain ?sub timestamp h) node timestamp
            (bs @ [(importer, node)]) currentChain rest = Some r"
      using "4.prems"(2) by (rule "4.IH"(1)[OF refl imp True])
    with imp True show ?thesis by (simp add: Let_def)
  next
    case notAccepted: False
    show ?thesis
    proof (cases "importer \<in> set currentChain")
      case True
      with imp notAccepted "4.prems"(1)
      have "propagateImporters fuel h node timestamp bs currentChain rest = Some r"
        by (simp add: Let_def)
      then have "propagateImporters fuel' h node timestamp bs currentChain rest = Some r"
        using "4.IH"(4)[OF refl imp notAccepted _ _ "4.prems"(2)] True by simp
      with imp notAccepted True show ?thesis by (simp add: Let_def)
    next
      case fresh: False
      from imp notAccepted fresh "4.prems"(1)
      obtain d1 h1 bs1 where
        rec: "propagateUpdate fuel h importer timestamp bs ?sub = Some (d1, h1, bs1)"
        by (auto simp: Let_def split: option.splits)
      have rec': "propagateUpdate fuel' h importer timestamp bs ?sub = Some (d1, h1, bs1)"
        by (rule "4.IH"(2)[OF refl imp notAccepted fresh rec "4.prems"(2)])
      show ?thesis
      proof (cases d1)
        case True
        with imp notAccepted fresh rec "4.prems"(1) have "r = (True, h1, bs1)"
          by (simp add: Let_def)
        with imp notAccepted fresh rec' True show ?thesis by (simp add: Let_def)
      next
        case False
        with imp notAccepted fresh rec "4.prems"(1)
        have "propagateImporters fuel h1 node timestamp bs1 currentChain rest = Some r"
          by (simp add: Let_def)
        then have "propagateImporters fuel' h1 node timestamp bs1 currentChain rest = Some r"
          using "4.IH"(3)[OF refl imp notAccepted fresh rec refl _ refl _ "4.prems"(2)] False
          by simp
        with imp notAccepted fresh rec' False show ?thesis by (simp add: Let_def)
      qed
    qed
  qed
qed






subsection \<open>The example graphs\<close>

lemma exampleNode_simps:
  "isSelfAccepting (exampleNode name sa acc imps) = sa"
  "acceptedHmrDeps (exampleNode name sa acc imps) = acc"
  "importers (exampleNode name sa acc imps) = imps"
  "url (exampleNode name sa acc imps) = js name"
  "type (exampleNode name sa acc imps) = js ''js''"
  by (simp_all add: exampleNode_def)

lemma cycleGraph_dom: "dom cycleGraph = {0, 1, 2}"
  by (auto simp: cycleGraph_def)

lemma cycleGraph_closed: "closed cycleGraph"
  by (auto simp: closed_def cycleGraph_def exampleNode_def split: if_splits)

lemma deadEndGraph_simps:
  "deadEndGraph 0 = Some (exampleNode ''/dep.js'' False {} [1, 2])"
  "deadEndGraph (Suc 0) = Some (exampleNode ''/accepting.js'' False {0} [])"
  "deadEndGraph 2 = Some (exampleNode ''/plain.js'' False {} [])"
  by (simp_all add: deadEndGraph_def)

lemma selfAcceptingGraph_simps:
  "selfAcceptingGraph 0 = Some (exampleNode ''/self.js'' True {} [1])"
  "selfAcceptingGraph (Suc 0) = Some (exampleNode ''/main.js'' False {} [])"
  by (simp_all add: selfAcceptingGraph_def)

lemma deadEndGraph_run:
  "propagateUpdate (Suc (Suc 0)) deadEndGraph 0 1000 [] [0] =
     Some (True, invalidateChain ([0] @ [Suc 0]) 1000 deadEndGraph, [] @ [(Suc 0, 0)])"
  by (simp add: deadEndGraph_simps exampleNode_simps invalidateChain_apply Let_def)

subsection \<open>A self-accepting node\<close>

text \<open>
  Claim C5. When the node is self-accepting, \<open>propagateUpdate\<close> returns \<open>false\<close> and adds
  the one boundary \<open>(node, node)\<close>; every node of the current chain gets the timestamp and
  loses its transform result, and no other node is touched. One level of recursion is
  enough whatever the importers are: none of them is visited.
\<close>

theorem propagateUpdate_self_accepting:
  assumes "h node = Some n" and "isSelfAccepting n"
  shows "propagateUpdate (Suc fuel) h node ts bs chain =
           Some (False, invalidateChain chain ts h, bs @ [(node, node)]) \<and>
         (\<forall>a. invalidateChain chain ts h a =
            (if a \<in> set chain
             then map_option (\<lambda>m. m\<lparr>lastHMRTimestamp := ts, transformResult := None\<rparr>) (h a)
             else h a))"
  using assms by (simp add: invalidateChain_apply)

theorem propagateUpdate_self_accepting_witness:
  "selfAcceptingGraph 0 = Some (exampleNode ''/self.js'' True {} [1]) \<and>
   isSelfAccepting (exampleNode ''/self.js'' True {} [1]) \<and>
   propagateUpdate (Suc 0) selfAcceptingGraph 0 1000 [] [0] =
     Some (False, invalidateChain [0] 1000 selfAcceptingGraph, [] @ [(0, 0)]) \<and>
   (\<forall>a. invalidateChain [0] 1000 selfAcceptingGraph a =
      (if a \<in> set [0]
       then map_option (\<lambda>m. m\<lparr>lastHMRTimestamp := 1000, transformResult := None\<rparr>)
              (selfAcceptingGraph a)
       else selfAcceptingGraph a))"
proof -
  have 1: "selfAcceptingGraph 0 = Some (exampleNode ''/self.js'' True {} [1])"
    by (simp add: selfAcceptingGraph_simps)
  have 2: "isSelfAccepting (exampleNode ''/self.js'' True {} [1])"
    by (simp add: exampleNode_simps)
  from propagateUpdate_self_accepting
         [where h = selfAcceptingGraph and node = 0 and fuel = 0 and ts = 1000 and bs = "[]"
            and chain = "[0]", OF 1 2] 1 2
  show ?thesis by blast
qed

subsection \<open>Termination\<close>

text \<open>
  Claim C6. On a finite module graph whose importers are nodes of the graph,
  \<open>propagateUpdate\<close> returns: a recursive call is made only on an importer that is not
  in the current chain, so a depth of one more than the number of nodes outside the chain
  is never exceeded, and the result is the same for every larger bound. The graph may be
  cyclic.
\<close>

theorem propagateUpdate_terminates:
  assumes "finite (dom h)" and "closed h" and "node \<in> dom h"
    and "card (dom h - set chain) < fuel"
  shows "\<exists>r. \<forall>k. propagateUpdate (fuel + k) h node ts bs chain = Some r"
proof -
  from walk_returns(1)[OF assms] obtain r where
    "propagateUpdate fuel h node ts bs chain = Some r" by blast
  then have "propagateUpdate (fuel + k) h node ts bs chain = Some r" for k
    by (rule walk_more_fuel(1)) simp
  then show ?thesis by blast
qed

theorem propagateUpdate_terminates_witness:
  "finite (dom cycleGraph) \<and> closed cycleGraph \<and> 0 \<in> dom cycleGraph \<and>
   card (dom cycleGraph - set [0]) < 3 \<and>
   (\<exists>r. \<forall>k. propagateUpdate (3 + k) cycleGraph 0 1000 [] [0] = Some r)"
proof -
  have f: "finite (dom cycleGraph)" by (simp add: cycleGraph_dom)
  have m: "(0::nat) \<in> dom cycleGraph" by (simp add: cycleGraph_dom)
  have c: "card (dom cycleGraph - set [0]) < 3" by (simp add: cycleGraph_dom)
  from propagateUpdate_terminates
         [where h = cycleGraph and node = 0 and chain = "[0]" and fuel = 3 and ts = 1000
            and bs = "[]", OF f cycleGraph_closed m c] f cycleGraph_closed m c
  show ?thesis by blast
qed

subsection \<open>Invalidation outlives a dead end\<close>



section \<open>Properties of the orchestrator\<close>

subsection \<open>The update message\<close>

text \<open>
  Claim C1. The file \<open>/srv/self.js\<close> is the self-accepting module \<open>/self.js\<close>, no plugin
  has a hook, and the walk finds the one boundary \<open>(/self.js, /self.js)\<close>. The call sends
  one \<open>update\<close> payload with one record; the record's fourth property is written
  \<open>accpetedPath\<close> by the source, not \<open>acceptedPath\<close>.
\<close>

theorem handleHMRUpdate_update_payload:
  "sent (handleHMRUpdate clientDir exampleRelative 2 1000 (js ''/srv/self.js'')
           (exampleServer selfAcceptingGraph [0] [])) =
     Some [JObject
       [(''type'', JString (js ''update'')),
        (''updates'', JArray
           [JObject
              [(''type'', JString (js ''js-update'')),
               (''timestamp'', JNumber 1000),
               (''path'', JString (js ''/self.js'')),
               (''accpetedPath'', JString (js ''/self.js''))]])]]"
  by code_simp

subsection \<open>Plugin hooks\<close>




text \<open>
  With \<open>clearingPlugin\<close> no module is walked and the \<open>update\<close> payload has no record;
  with \<open>voidPlugin\<close> the module \<open>/self.js\<close> is walked and yields its record.
\<close>

lemma handleHMRUpdate_after_hooks:
  "sent (handleHMRUpdate clientDir exampleRelative 2 1000 (js ''/srv/self.js'')
           (exampleServer selfAcceptingGraph [0] [clearingPlugin])) =
     Some [JObject [(''type'', JString (js ''update'')), (''updates'', JArray [])]] \<and>
   sent (handleHMRUpdate clientDir exampleRelative 2 1000 (js ''/srv/self.js'')
           (exampleServer selfAcceptingGraph [0] [voidPlugin])) =
     Some [JObject
       [(''type'', JString (js ''update'')),
        (''updates'', JArray
           [JObject
              [(''type'', JString (js ''js-update'')),
               (''timestamp'', JNumber 1000),
               (''path'', JString (js ''/self.js'')),
               (''accpetedPath'', JString (js ''/self.js''))]])]]"
  by code_simp

subsection \<open>A dead end in a batch\<close>

lemma propagateAll_frame:
  "propagateAll fuel h mods ts ups = Some (b, h') \<Longrightarrow> frame h h'"
proof (induction mods arbitrary: h ups)
  case Nil
  then show ?case by (simp add: frame_refl)
next
  case (Cons m mods)
  from Cons.prems obtain d h1 bs where
    walk: "propagateUpdate fuel h m ts [] [m] = Some (d, h1, bs)"
    by (auto split: option.splits)
  have f1: "frame h h1" by (rule walk_frame(1)[OF walk])
  show ?case
  proof (cases d)
    case True
    with walk Cons.prems have "h' = h1" by simp
    with f1 show ?thesis by simp
  next
    case False
    with walk Cons.prems obtain records where
      "propagateAll fuel h1 mods ts (ups @ records) = Some (b, h')"
      by (auto split: option.splits)
    then have "frame h1 h'" by (rule Cons.IH)
    with f1 show ?thesis by (rule frame_trans)
  qed
qed

lemma propagateAll_append:
  "propagateAll fuel h (pre @ rest) ts ups =
     (case propagateAll fuel h pre ts ups of
        None \<Rightarrow> None
      | Some (FullReload, h1) \<Rightarrow> Some (FullReload, h1)
      | Some (Updates ups1, h1) \<Rightarrow> propagateAll fuel h1 rest ts ups1)"
proof (induction pre arbitrary: h ups)
  case Nil
  show ?case by simp
next
  case (Cons m pre)
  show ?case
    by (simp add: Cons.IH split: option.splits bool.splits prod.splits)
qed

text \<open>
  Claim C4. The file is one that reaches the module loop, and the hooks leave the batch
  \<open>pre @ m # post\<close>. The modules of \<open>pre\<close> are walked without a dead end and yield the
  records \<open>found\<close>; the walk of \<open>m\<close> reports a dead end. Then the call resolves, and
  what it has sent is one payload, the \<open>full-reload\<close> with no \<open>path\<close>: no \<open>update\<close>
  is sent, the records \<open>found\<close> are dropped, and the modules of \<open>post\<close> are not walked.
\<close>

theorem dead_end_full_reload:
  assumes "Some f \<noteq> configPath (config server)"
    and "\<not> suffix (js ''.env'') f"
    and "\<not> suffix (js ''.html'') f"
    and "\<not> prefix CLIENT_DIR f"
    and "getModulesByFile server f = Some mods"
    and "hotUpdateHooks (plugins (config server)) f mods (moduleGraph server)
           = Inr (pre @ m # post)"
    and "propagateAll fuel (moduleGraph server) pre now [] = Some (Updates found, h1)"
    and "propagateUpdate fuel h1 m now [] [m] = Some (True, h2, bs)"
  shows "\<exists>server'. handleHMRUpdate CLIENT_DIR rel fuel now f server = Some (Inr server') \<and>
           ws server' = ws server @ [JObject [(''type'', JString (js ''full-reload''))]] \<and>
           moduleGraph server' = h2"
proof -
  have "propagateAll fuel (moduleGraph server) (pre @ m # post) now [] = Some (FullReload, h2)"
    using assms(7,8) by (simp add: propagateAll_append)
  with assms(1-6) show ?thesis
    by (simp add: handleHMRUpdate_def send_def)
qed

text \<open>
  The file \<open>/srv/self.js\<close> holds the modules \<open>/self.js\<close> and \<open>/main.js\<close>. The first is
  self-accepting and yields a record; the second has no importers.
\<close>

theorem dead_end_full_reload_witness:
  "Some (js ''/srv/self.js'') \<noteq>
     configPath (config (exampleServer selfAcceptingGraph [0, 1] [voidPlugin])) \<and>
   \<not> suffix (js ''.env'') (js ''/srv/self.js'') \<and>
   \<not> suffix (js ''.html'') (js ''/srv/self.js'') \<and>
   \<not> prefix clientDir (js ''/srv/self.js'') \<and>
   getModulesByFile (exampleServer selfAcceptingGraph [0, 1] [voidPlugin]) (js ''/srv/self.js'')
     = Some [0, 1] \<and>
   hotUpdateHooks (plugins (config (exampleServer selfAcceptingGraph [0, 1] [voidPlugin])))
     (js ''/srv/self.js'') [0, 1]
     (moduleGraph (exampleServer selfAcceptingGraph [0, 1] [voidPlugin])) = Inr ([0] @ 1 # []) \<and>
   propagateAll 2 (moduleGraph (exampleServer selfAcceptingGraph [0, 1] [voidPlugin])) [0] 1000 []
     = Some (Updates
         [JObject
            [(''type'', JString (js ''js-update'')),
             (''timestamp'', JNumber 1000),
             (''path'', JString (js ''/self.js'')),
             (''accpetedPath'', JString (js ''/self.js''))]],
         invalidateChain [0] 1000 selfAcceptingGraph) \<and>
   propagateUpdate 2 (invalidateChain [0] 1000 selfAcceptingGraph) 1 1000 [] [1]
     = Some (True, invalidateChain [0] 1000 selfAcceptingGraph, []) \<and>
   (\<exists>server'.
      handleHMRUpdate clientDir exampleRelative 2 1000 (js ''/srv/self.js'')
        (exampleServer selfAcceptingGraph [0, 1] [voidPlugin]) = Some (Inr server') \<and>
      ws server' = ws (exampleServer selfAcceptingGraph [0, 1] [voidPlugin]) @
        [JObject [(''type'', JString (js ''full-reload''))]] \<and>
      moduleGraph server' = invalidateChain [0] 1000 selfAcceptingGraph)"
proof -
  let ?server = "exampleServer selfAcceptingGraph [0, 1] [voidPlugin]"
  let ?f = "js ''/srv/self.js''"
  let ?h1 = "invalidateChain [0] 1000 selfAcceptingGraph"
  have 1: "Some ?f \<noteq> configPath (config ?server)" by code_simp
  have 2: "\<not> suffix (js ''.env'') ?f" by code_simp
  have 3: "\<not> suffix (js ''.html'') ?f" by code_simp
  have 4: "\<not> prefix clientDir ?f" by code_simp
  have 5: "getModulesByFile ?server ?f = Some [0, 1]" by code_simp
  have 6: "hotUpdateHooks (plugins (config ?server)) ?f [0, 1] (moduleGraph ?server)
             = Inr ([0] @ 1 # [])"
    by (simp add: exampleServer_def voidPlugin_def)
  have 7: "propagateAll 2 (moduleGraph ?server) [0] 1000 []
     = Some (Updates
         [JObject
            [(''type'', JString (js ''js-update'')),
             (''timestamp'', JNumber 1000),
             (''path'', JString (js ''/self.js'')),
             (''accpetedPath'', JString (js ''/self.js''))]], ?h1)"
    by (simp add: exampleServer_def numeral_2_eq_2 selfAcceptingGraph_simps exampleNode_simps
          updateRecord_def invalidateChain_apply js_def)
  have 8: "propagateUpdate 2 ?h1 1 1000 [] [1] = Some (True, ?h1, [])"
    by (simp add: numeral_2_eq_2 selfAcceptingGraph_simps exampleNode_simps
          invalidateChain_apply)
  from dead_end_full_reload
         [where server = ?server and f = ?f and CLIENT_DIR = clientDir and fuel = 2
            and now = 1000 and rel = exampleRelative, OF 1 2 3 4 5 6 7 8]
       1 2 3 4 5 6 7 8
  show ?thesis by blast
qed

section \<open>Properties of handlePrunedModules\<close>

lemma stampNode_apply:
  "stampNode t h x a =
     (if a = x then map_option (\<lambda>n. n\<lparr>lastHMRTimestamp := t\<rparr>) (h a) else h a)"
  by (simp add: stampNode_def split: option.splits)

lemma stampNodes_apply:
  "foldl (stampNode t) h mods a =
     (if a \<in> set mods then map_option (\<lambda>n. n\<lparr>lastHMRTimestamp := t\<rparr>) (h a) else h a)"
proof (induction mods arbitrary: h)
  case Nil
  show ?case by simp
next
  case (Cons x xs)
  let ?stamp = "\<lambda>n. n\<lparr>lastHMRTimestamp := t\<rparr>"
  let ?h = "stampNode t h x"
  have "foldl (stampNode t) h (x # xs) a = foldl (stampNode t) ?h xs a"
    by simp
  also have "\<dots> = (if a \<in> set xs then map_option ?stamp (?h a) else ?h a)"
    by (rule Cons.IH)
  also have "\<dots> = (if a \<in> set (x # xs) then map_option ?stamp (h a) else h a)"
    by (cases "h x") (auto simp: stampNode_apply)
  finally show ?case .
qed

lemma frame_stampNodes: "frame h (foldl (stampNode t) h mods)"
proof -
  have "dom (foldl (stampNode t) h mods) = dom h"
    by (auto simp: stampNodes_apply dom_def)
  then show ?thesis
    by (auto simp: frame_def preserved_def stampNodes_apply split: if_splits)
qed

lemma those_urls:
  assumes "map h mods = map Some nodes"
    and "\<And>a. a \<in> set mods \<Longrightarrow> h' a = map_option stamp (h a)"
    and "\<And>n. url (stamp n) = url n"
  shows "those (map (\<lambda>m. map_option url (h' m)) mods) = Some (map url nodes)"
  using assms(1,2)
proof (induction mods arbitrary: nodes)
  case Nil
  then show ?case by simp
next
  case (Cons m mods)
  from Cons.prems(1) obtain n ns where
    nodes: "nodes = n # ns" and n: "h m = Some n" and ns: "map h mods = map Some ns"
    by (cases nodes) auto
  have "those (map (\<lambda>m. map_option url (h' m)) mods) = Some (map url ns)"
    using ns Cons.prems(2) by (intro Cons.IH) simp_all
  moreover from n Cons.prems(2)[of m] have "h' m = Some (stamp n)" by simp
  ultimately show ?case by (simp add: nodes assms(3))
qed

text \<open>
  Claim C7. \<open>nodes\<close> are the nodes of the input set in iteration order. The call gives
  the one timestamp \<open>t\<close> to every node of the set, changes nothing else in the graph, and
  sends one payload, the \<open>prune\<close> whose paths are the nodes' urls in that order.
\<close>

theorem handlePrunedModules_stamps_and_sends:
  assumes "map (moduleGraph server) mods = map Some nodes"
  shows "\<exists>server'. handlePrunedModules mods t server = Some server' \<and>
           ws server' = ws server @
             [JObject [(''type'', JString (js ''prune'')),
                       (''paths'', JArray (map JString (map url nodes)))]] \<and>
           (\<forall>a. moduleGraph server' a =
              (if a \<in> set mods
               then map_option (\<lambda>n. n\<lparr>lastHMRTimestamp := t\<rparr>) (moduleGraph server a)
               else moduleGraph server a))"
proof -
  let ?h' = "foldl (stampNode t) (moduleGraph server) mods"
  have "those (map (\<lambda>m. map_option url (?h' m)) mods) = Some (map url nodes)"
    using assms
  proof (rule those_urls)
    show "?h' a = map_option (\<lambda>n. n\<lparr>lastHMRTimestamp := t\<rparr>) (moduleGraph server a)"
      if "a \<in> set mods" for a
      using that by (simp add: stampNodes_apply)
    show "url (n\<lparr>lastHMRTimestamp := t\<rparr>) = url n" for n :: ModuleNode
      by simp
  qed
  then show ?thesis
    by (simp add: handlePrunedModules_def Let_def send_def stampNodes_apply)
qed

theorem handlePrunedModules_stamps_and_sends_witness:
  "map (moduleGraph (exampleServer selfAcceptingGraph [0] [])) [1, 0] =
     map Some [exampleNode ''/main.js'' False {} [], exampleNode ''/self.js'' True {} [1]] \<and>
   (\<exists>server'.
      handlePrunedModules [1, 0] 2000 (exampleServer selfAcceptingGraph [0] []) = Some server' \<and>
      ws server' = ws (exampleServer selfAcceptingGraph [0] []) @
        [JObject [(''type'', JString (js ''prune'')),
                  (''paths'', JArray (map JString (map url
                     [exampleNode ''/main.js'' False {} [],
                      exampleNode ''/self.js'' True {} [1]])))]] \<and>
      (\<forall>a. moduleGraph server' a =
         (if a \<in> set [1, 0]
          then map_option (\<lambda>n. n\<lparr>lastHMRTimestamp := 2000\<rparr>)
                 (moduleGraph (exampleServer selfAcceptingGraph [0] []) a)
          else moduleGraph (exampleServer selfAcceptingGraph [0] []) a)))"
proof -
  have 1: "map (moduleGraph (exampleServer selfAcceptingGraph [0] [])) [1, 0] =
     map Some [exampleNode ''/main.js'' False {} [], exampleNode ''/self.js'' True {} [1]]"
    by (simp add: exampleServer_def selfAcceptingGraph_simps)
  from handlePrunedModules_stamps_and_sends
         [where server = "exampleServer selfAcceptingGraph [0] []" and mods = "[1, 0]"
            and t = 2000, OF 1] 1
  show ?thesis by blast
qed

section \<open>The frame of the core\<close>

lemma handleHMRUpdate_frame:
  assumes "handleHMRUpdate CLIENT_DIR rel fuel now f server = Some (Inr server')"
  shows "frame (moduleGraph server) (moduleGraph server')"
proof (cases "Some f = configPath (config server) \<or> suffix (js ''.env'') f \<or>
              suffix (js ''.html'') f \<or> prefix CLIENT_DIR f \<or>
              getModulesByFile server f = None")
  case True
  with assms have "moduleGraph server' = moduleGraph server"
    by (auto simp: handleHMRUpdate_def send_def split: if_splits)
  then show ?thesis by (simp add: frame_refl)
next
  case False
  then obtain mods where mods: "getModulesByFile server f = Some mods" by auto
  from False mods assms obtain filteredMods b h' where
    batch: "propagateAll fuel (moduleGraph server) filteredMods now [] = Some (b, h')" and
    h': "moduleGraph server' = h'"
    by (auto simp: handleHMRUpdate_def send_def split: sum.splits option.splits batch.splits)
  from batch have "frame (moduleGraph server) h'" by (rule propagateAll_frame)
  with h' show ?thesis by simp
qed

lemma handlePrunedModules_frame:
  assumes "handlePrunedModules mods t server = Some server'"
  shows "frame (moduleGraph server) (moduleGraph server')"
proof -
  from assms have "moduleGraph server' = foldl (stampNode t) (moduleGraph server) mods"
    by (auto simp: handlePrunedModules_def Let_def send_def split: option.splits)
  then show ?thesis by (simp add: frame_stampNodes)
qed

text \<open>
  Claim C9. Whatever \<open>propagateUpdate\<close>, \<open>handleHMRUpdate\<close> or \<open>handlePrunedModules\<close> leaves
  behind, the graph holds nodes at the same addresses as before (none is created, none
  is deleted), and each node has its \<open>url\<close>, \<open>file\<close>, \<open>type\<close>, \<open>isSelfAccepting\<close>,
  \<open>acceptedHmrDeps\<close> and \<open>importers\<close> as before: \<open>lastHMRTimestamp\<close> and
  \<open>transformResult\<close> are the only fields written.
\<close>

theorem core_frame:
  "(propagateUpdate fuel h node ts bs chain = Some (d, h', bs') \<longrightarrow> frame h h') \<and>
   (handleHMRUpdate CLIENT_DIR rel fuel now f server = Some (Inr server') \<longrightarrow>
      frame (moduleGraph server) (moduleGraph server')) \<and>
   (handlePrunedModules mods t pruning = Some pruned \<longrightarrow>
      frame (moduleGraph pruning) (moduleGraph pruned))"
  using walk_frame(1) handleHMRUpdate_frame handlePrunedModules_frame by blast

theorem core_frame_witness:
  "propagateUpdate 2 deadEndGraph 0 1000 [] [0] =
     Some (True, invalidateChain [0, 1] 1000 deadEndGraph, [(1, 0)]) \<and>
   frame deadEndGraph (invalidateChain [0, 1] 1000 deadEndGraph) \<and>
   (\<exists>server'.
      handleHMRUpdate clientDir exampleRelative 2 1000 (js ''/srv/self.js'')
        (exampleServer selfAcceptingGraph [0] []) = Some (Inr server') \<and>
      frame (moduleGraph (exampleServer selfAcceptingGraph [0] [])) (moduleGraph server')) \<and>
   (\<exists>pruned.
      handlePrunedModules [1, 0] 2000 (exampleServer selfAcceptingGraph [0] []) = Some pruned \<and>
      frame (moduleGraph (exampleServer selfAcceptingGraph [0] [])) (moduleGraph pruned))"
proof -
  let ?server = "exampleServer selfAcceptingGraph [0] []"
  have 1: "propagateUpdate 2 deadEndGraph 0 1000 [] [0] =
     Some (True, invalidateChain [0, 1] 1000 deadEndGraph, [(1, 0)])"
    using deadEndGraph_run by (simp add: numeral_2_eq_2)
  have "sent (handleHMRUpdate clientDir exampleRelative 2 1000 (js ''/srv/self.js'') ?server)
          \<noteq> None"
    by code_simp
  then obtain server' where
    2: "handleHMRUpdate clientDir exampleRelative 2 1000 (js ''/srv/self.js'') ?server
          = Some (Inr server')"
    by (auto simp: sent_def split: option.splits sum.splits)
  have "map_option ws (handlePrunedModules [1, 0] 2000 ?server) \<noteq> None"
    by code_simp
  then obtain pruned where
    3: "handlePrunedModules [1, 0] 2000 ?server = Some pruned"
    by auto
  note frames = core_frame
         [where fuel = 2 and h = deadEndGraph and node = 0 and ts = 1000 and bs = "[]"
            and chain = "[0]" and d = True
            and h' = "invalidateChain [0, 1] 1000 deadEndGraph" and bs' = "[(1, 0)]"
            and CLIENT_DIR = clientDir and rel = exampleRelative and now = 1000
            and f = "js ''/srv/self.js''" and server = ?server and server' = server'
            and mods = "[1, 0]" and t = 2000 and pruning = ?server and pruned = pruned]
  from frames 1 2 3 show ?thesis by blast
qed

section \<open>Properties of the lexer\<close>

text \<open>
  The call as a whole returns what the loop returns from any iteration that it reaches.
\<close>

lemma lexAt_lexLoop:
  "lexAt code start urls0 k = Some lx \<Longrightarrow>
     lexAcceptedHmrDeps code start urls0 = lexLoop code (start + k) lx"
proof (induction k arbitrary: lx)
  case 0
  then show ?case by (simp add: lexAcceptedHmrDeps_def)
next
  case (Suc k)
  from Suc.prems obtain lx0 where
    at: "lexAt code start urls0 k = Some lx0" and
    inside: "start + k < length code" and
    step: "lexStep code (start + k) lx0 = Continue lx"
    by (auto split: option.splits if_splits step.splits)
  have "lexAcceptedHmrDeps code start urls0 = lexLoop code (start + k) lx0"
    by (rule Suc.IH[OF at])
  also have "\<dots> = lexLoop code (start + k + 1) lx"
    using inside step by (subst lexLoop.simps) simp
  finally show ?case by simp
qed

subsection \<open>The closing double quote\<close>

text \<open>
  Claim C3. In \<open>(["./a.js","./b.js"])\<close> the closing double quote of the first entry adds
  \<open>./a.js\<close> and leaves it in the buffer, so that the second entry is added as
  \<open>./a.js./b.js\<close>. With single quotes the same call adds \<open>./a.js\<close> and \<open>./b.js\<close>.
  The call \<open>("./a.js","./b.js")\<close> returns \<open>true\<close> at the comma, with \<open>./a.js\<close> alone.
\<close>

theorem double_quote_keeps_buffer:
  "lexAcceptedHmrDeps doubleQuoted 1 [] = (Inr False, [js ''./a.js'', js ''./a.js./b.js'']) \<and>
   lexAcceptedHmrDeps singleQuoted 1 [] = (Inr False, [js ''./a.js'', js ''./b.js'']) \<and>
   lexAcceptedHmrDeps twoArguments 1 [] = (Inr True, [js ''./a.js''])"
  by code_simp

subsection \<open>The fatal conditions\<close>

text \<open>
  Claim C8. Let the call reach index \<open>start + k\<close> with the loop's variables \<open>lx\<close>. If the
  state is the template string and the code unit there is a dollar sign followed by an
  opening brace, or the state is the array and the code unit is neither a quote of the
  three kinds, nor a closing bracket, nor a comma, nor white space, then the call as a
  whole throws the error with \<open>pos = start + k\<close>; nothing catches it on the way.
\<close>

theorem lexAcceptedHmrDeps_throws:
  assumes "lexAt code start urls0 k = Some lx"
    and "start + k < length code"
    and "state lx = inTemplateString \<and> code ! (start + k) = 0x24 \<and>
           start + k + 1 < length code \<and> code ! (start + k + 1) = 0x7B
         \<or> state lx = inArray \<and> code ! (start + k) \<notin> {0x27, 0x22, 0x60, 0x5D, 0x2C} \<and>
           \<not> isSpace (code ! (start + k))"
  shows "lexAcceptedHmrDeps code start urls0 = (Inl (AcceptError (start + k)), urls lx)"
proof -
  from assms(3)
  have "lexStep code (start + k) lx = Done (Inl (AcceptError (start + k))) (urls lx)"
    by (auto simp: lexStep_def Let_def)
  with assms(2) have "lexLoop code (start + k) lx = (Inl (AcceptError (start + k)), urls lx)"
    by (subst lexLoop.simps) simp
  with lexAt_lexLoop[OF assms(1)] show ?thesis by simp
qed

text \<open>
  In \<open>([`./a${x}`])\<close> the dollar sign is at index 6; in \<open>([./a.js])\<close> the dot at index 2
  is in the array and is no string.
\<close>

theorem lexAcceptedHmrDeps_throws_witness:
  "lexAt interpolated 1 [] 5 =
     Some \<lparr>state = inTemplateString, prevState = inArray, currentDep = js ''./a'', urls = []\<rparr> \<and>
   1 + 5 < length interpolated \<and>
   interpolated ! (1 + 5) = 0x24 \<and> 1 + 5 + 1 < length interpolated \<and>
   interpolated ! (1 + 5 + 1) = 0x7B \<and>
   lexAcceptedHmrDeps interpolated 1 [] = (Inl (AcceptError (1 + 5)), []) \<and>
   lexAt bareArray 1 [] 1 =
     Some \<lparr>state = inArray, prevState = inCall, currentDep = [], urls = []\<rparr> \<and>
   1 + 1 < length bareArray \<and>
   bareArray ! (1 + 1) \<notin> {0x27, 0x22, 0x60, 0x5D, 0x2C} \<and> \<not> isSpace (bareArray ! (1 + 1)) \<and>
   lexAcceptedHmrDeps bareArray 1 [] = (Inl (AcceptError (1 + 1)), [])"
proof -
  let ?lx = "\<lparr>state = inTemplateString, prevState = inArray, currentDep = js ''./a'',
              urls = []\<rparr>"
  let ?ly = "\<lparr>state = inArray, prevState = inCall, currentDep = [], urls = []\<rparr>"
  have 1: "lexAt interpolated 1 [] 5 = Some ?lx" by code_simp
  have 2: "1 + 5 < length interpolated" by code_simp
  have 3: "interpolated ! (1 + 5) = 0x24" by code_simp
  have 4: "1 + 5 + 1 < length interpolated" by code_simp
  have 5: "interpolated ! (1 + 5 + 1) = 0x7B" by code_simp
  have 6: "lexAt bareArray 1 [] 1 = Some ?ly" by code_simp
  have 7: "1 + 1 < length bareArray" by code_simp
  have 8: "bareArray ! (1 + 1) \<notin> {0x27, 0x22, 0x60, 0x5D, 0x2C}" by code_simp
  have 9: "\<not> isSpace (bareArray ! (1 + 1))" by code_simp
  have "lexAcceptedHmrDeps interpolated 1 [] = (Inl (AcceptError (1 + 5)), urls ?lx)"
    using 3 4 5 by (intro lexAcceptedHmrDeps_throws[OF 1 2]) simp
  then have a: "lexAcceptedHmrDeps interpolated 1 [] = (Inl (AcceptError (1 + 5)), [])"
    by simp
  have "lexAcceptedHmrDeps bareArray 1 [] = (Inl (AcceptError (1 + 1)), urls ?ly)"
    using 8 9 by (intro lexAcceptedHmrDeps_throws[OF 6 7]) simp
  then have b: "lexAcceptedHmrDeps bareArray 1 [] = (Inl (AcceptError (1 + 1)), [])"
    by simp
  from 1 2 3 4 5 6 7 8 9 a b show ?thesis by blast
qed

end
